theory Spec2Isabelle
  imports
    Complex_Main
    "HOL-Library.Multiset"
    "HOL-Library.Char_ord"
    "HOL-Library.List_Lexorder"
    "HOL-Library.Product_Lexorder"
begin

section \<open>The micropath views of the gate-crossing notebook\<close>

text \<open>
  The notebook builds its micropaths with a chain of SparkSQL views
  \<^verbatim>\<open>v0\<close> ... \<^verbatim>\<open>v4\<close> and the data frame \<^verbatim>\<open>df1\<close>. Every view is a table, modelled as the
  list of its rows; a row is a record with the view's columns. The SQL types are
  modelled as follows: \<^verbatim>\<open>double\<close> as \<^typ>\<open>real\<close>, \<^verbatim>\<open>bigint\<close> (the epoch seconds of
  \<^verbatim>\<open>unix_timestamp\<close>, and their differences) as \<^typ>\<open>int\<close>, \<^verbatim>\<open>string\<close> as
  \<^typ>\<open>string\<close>. The columns read from the feature class are taken to be non-null; the
  one place where the queries themselves can produce \<^verbatim>\<open>NULL\<close>, the division
  \<^verbatim>\<open>dd/dt\<close>, is modelled with \<^typ>\<open>real option\<close>.

  Several views share column names, so columns are written with the name of their
  view's record in front (\<open>v1_row.t1\<close>, \<open>v3_row.dt\<close>).

  The micropath notebook builds the same views with one more column, the hour \<^verbatim>\<open>h\<close> of
  the report, which no query below reads, and applies the same \<^verbatim>\<open>where\<close> clauses.
\<close>

subsection \<open>View v0: the position reports\<close>

text \<open>\<^verbatim>\<open>selectExpr("mmsi","x","y","unix_timestamp(t) t")\<close>\<close>

record v0_row =
  mmsi :: string
  x :: real
  y :: real
  t :: int

subsection \<open>View v1: every report with its leading report\<close>

text \<open>
  \<^verbatim>\<open>select mmsi, x x1, y y1, t t1,
         lead(x,1,0.0) over (partition by mmsi order by t) x2,
         lead(y,1,0.0) over (partition by mmsi order by t) y2,
         lead(t,1,0)   over (partition by mmsi order by t) t2
  from v0\<close>
\<close>

record v1_row =
  mmsi :: string
  x1 :: real
  y1 :: real
  t1 :: int
  x2 :: real
  y2 :: real
  t2 :: int

text \<open>\<^verbatim>\<open>partition by mmsi\<close>: the rows of one entity.\<close>

definition partition_by :: "string \<Rightarrow> v0_row list \<Rightarrow> v0_row list" where
  "partition_by k v0 = filter (\<lambda>r. v0_row.mmsi r = k) v0"

text \<open>
  \<^verbatim>\<open>order by t\<close> within a partition. SQL leaves the order of rows with equal \<^verbatim>\<open>t\<close>
  open; the model keeps them in the order of the input (a stable sort).
\<close>

definition order_by_t :: "v0_row list \<Rightarrow> v0_row list" where
  "order_by_t rs = sort_key v0_row.t rs"

text \<open>
  \<^verbatim>\<open>lead(c,1,d)\<close> over an ordered partition: the value of column \<^verbatim>\<open>c\<close> in the next row
  of the partition, and the default \<^verbatim>\<open>d\<close> on the partition's last row, which has no
  next row. The three window expressions share the window, so one pass builds the
  rows of \<^verbatim>\<open>v1\<close> of a partition.
\<close>

fun lead_rows :: "v0_row list \<Rightarrow> v1_row list" where
  "lead_rows [] = []"
| "lead_rows [r] =
     [\<lparr>v1_row.mmsi = v0_row.mmsi r, x1 = v0_row.x r, y1 = v0_row.y r, t1 = v0_row.t r,
       x2 = 0.0, y2 = 0.0, t2 = 0\<rparr>]"
| "lead_rows (r # s # rs) =
     \<lparr>v1_row.mmsi = v0_row.mmsi r, x1 = v0_row.x r, y1 = v0_row.y r, t1 = v0_row.t r,
      x2 = v0_row.x s, y2 = v0_row.y s, t2 = v0_row.t s\<rparr> # lead_rows (s # rs)"

definition v1 :: "v0_row list \<Rightarrow> v1_row list" where
  "v1 v0 =
     concat (map (\<lambda>k. lead_rows (order_by_t (partition_by k v0)))
                 (remdups (map v0_row.mmsi v0)))"

subsection \<open>View v2: displacements and elapsed time\<close>

text \<open>\<^verbatim>\<open>select *,(x2-x1) dx,(y2-y1) dy,(t2-t1) dt from v1 where t1 < t2\<close>\<close>

record v2_row = v1_row +
  dx :: real
  dy :: real
  dt :: int

definition v2 :: "v1_row list \<Rightarrow> v2_row list" where
  "v2 tbl =
     map (\<lambda>r. \<lparr>v1_row.mmsi = v1_row.mmsi r, x1 = v1_row.x1 r, y1 = v1_row.y1 r,
                t1 = v1_row.t1 r, x2 = v1_row.x2 r, y2 = v1_row.y2 r, t2 = v1_row.t2 r,
                dx = v1_row.x2 r - v1_row.x1 r, dy = v1_row.y2 r - v1_row.y1 r,
                dt = v1_row.t2 r - v1_row.t1 r\<rparr>)
         (filter (\<lambda>r. v1_row.t1 r < v1_row.t2 r) tbl)"

subsection \<open>View v3: travel distance\<close>

text \<open>\<^verbatim>\<open>select mmsi,x1,y1,x2,y2,sqrt(dx*dx+dy*dy) dd,dt from v2\<close>\<close>

record v3_row =
  mmsi :: string
  x1 :: real
  y1 :: real
  x2 :: real
  y2 :: real
  dd :: real
  dt :: int

definition v3 :: "v2_row list \<Rightarrow> v3_row list" where
  "v3 tbl =
     map (\<lambda>r. \<lparr>v3_row.mmsi = v1_row.mmsi r, x1 = v1_row.x1 r, y1 = v1_row.y1 r,
                x2 = v1_row.x2 r, y2 = v1_row.y2 r,
                dd = sqrt (v2_row.dx r * v2_row.dx r + v2_row.dy r * v2_row.dy r),
                dt = v2_row.dt r\<rparr>)
         tbl"

subsection \<open>View v4: travel speed\<close>

text \<open>
  \<^verbatim>\<open>select *,dd/dt mps from v3\<close>. SparkSQL's \<^verbatim>\<open>/\<close> converts the \<^verbatim>\<open>bigint\<close> divisor to
  \<^verbatim>\<open>double\<close> and yields \<^verbatim>\<open>NULL\<close>, not an error, when the divisor is zero.
\<close>

definition sql_div :: "real \<Rightarrow> int \<Rightarrow> real option" where
  "sql_div a b = (if b = 0 then None else Some (a / real_of_int b))"

record v4_row = v3_row +
  mps :: "real option"

definition v4 :: "v3_row list \<Rightarrow> v4_row list" where
  "v4 tbl =
     map (\<lambda>r. \<lparr>v3_row.mmsi = v3_row.mmsi r, x1 = v3_row.x1 r, y1 = v3_row.y1 r,
                x2 = v3_row.x2 r, y2 = v3_row.y2 r, dd = v3_row.dd r, dt = v3_row.dt r,
                mps = sql_div (v3_row.dd r) (v3_row.dt r)\<rparr>)
         tbl"

subsection \<open>Data frame df1: the noise filter\<close>

text \<open>
  \<^verbatim>\<open>select x1,y1,x2,y2 from v4 where dd between 1 and 1500 and mps < 25 and dt < 130\<close>.
  \<^verbatim>\<open>between\<close> includes both bounds. A comparison with \<^verbatim>\<open>NULL\<close> is not true, so a row
  with a \<^verbatim>\<open>NULL\<close> speed is dropped by \<^verbatim>\<open>where\<close>.
\<close>

record df1_row =
  x1 :: real
  y1 :: real
  x2 :: real
  y2 :: real

definition sql_less :: "real option \<Rightarrow> real \<Rightarrow> bool" where
  "sql_less a b = (case a of None \<Rightarrow> False | Some v \<Rightarrow> v < b)"

definition noise_where :: "v4_row \<Rightarrow> bool" where
  "noise_where r =
     ((1 \<le> v3_row.dd r \<and> v3_row.dd r \<le> 1500)
      \<and> sql_less (v4_row.mps r) 25
      \<and> v3_row.dt r < 130)"

definition df1_select :: "v4_row \<Rightarrow> df1_row" where
  "df1_select r =
     \<lparr>df1_row.x1 = v3_row.x1 r, y1 = v3_row.y1 r, x2 = v3_row.x2 r, y2 = v3_row.y2 r\<rparr>"

definition df1 :: "v4_row list \<Rightarrow> df1_row list" where
  "df1 tbl = map df1_select (filter noise_where tbl)"

section \<open>The gate-crossing function\<close>

subsection \<open>Geometries\<close>

text \<open>
  The notebook takes its geometry from the shapely library: a gate is a \<^verbatim>\<open>LineString\<close>
  loaded from WKB, a micropath the \<^verbatim>\<open>LineString([(x1,y1),(x2,y2)])\<close>, and
  \<^verbatim>\<open>gate_geom.intersection(path)\<close> is again a geometry. Gates are two-point lines, as
  in the specification's data model, so a line is the pair of its first and last
  point, and the intersection of two lines is empty, a point, or a line. Only a point
  has the attributes \<^verbatim>\<open>x\<close> and \<^verbatim>\<open>y\<close>; reading them from another geometry raises
  \<^verbatim>\<open>AttributeError\<close>.
\<close>

type_synonym point = "real \<times> real"
type_synonym line = "point \<times> point"

datatype geometry = Empty | Point real real | LineString point point

definition is_empty :: "geometry \<Rightarrow> bool" where
  "is_empty g = (g = Empty)"

datatype error = AttributeError

fun point_x :: "geometry \<Rightarrow> error + real" where
  "point_x (Point px py) = Inr px"
| "point_x _ = Inl AttributeError"

fun point_y :: "geometry \<Rightarrow> error + real" where
  "point_y (Point px py) = Inr py"
| "point_y _ = Inl AttributeError"

subsection \<open>The intersection of two lines\<close>

text \<open>
  The library's \<^verbatim>\<open>intersection\<close> is not part of the notebook, so the function below
  takes it as a parameter. \<open>segment_intersection\<close> is the operation on two-point lines
  as the library documents it, the set of points that both lines share: for lines
  that are not parallel the crossing point, if it lies on both; for collinear lines
  their common stretch, which is a line, a single point where they only touch, or
  empty. A line whose two points coincide has no stretch, and is given the empty
  intersection here; the properties proved below do not depend on that case.
\<close>

definition segment_intersection :: "line \<Rightarrow> line \<Rightarrow> geometry" where
  "segment_intersection a b =
     (let ux = fst (snd a) - fst (fst a); uy = snd (snd a) - snd (fst a);
          vx = fst (snd b) - fst (fst b); vy = snd (snd b) - snd (fst b);
          wx = fst (fst b) - fst (fst a); wy = snd (fst b) - snd (fst a);
          d = ux * vy - uy * vx
      in if d \<noteq> 0 then
           (let s = (wx * vy - wy * vx) / d; r = (wx * uy - wy * ux) / d
            in if 0 \<le> s \<and> s \<le> 1 \<and> 0 \<le> r \<and> r \<le> 1
               then Point (fst (fst a) + s * ux) (snd (fst a) + s * uy)
               else Empty)
         else if (ux = 0 \<and> uy = 0) \<or> (vx = 0 \<and> vy = 0) then Empty
         else if wx * uy - wy * ux \<noteq> 0 then Empty
         else
           (let n = ux * ux + uy * uy;
                p1 = (wx * ux + wy * uy) / n;
                p2 = ((wx + vx) * ux + (wy + vy) * uy) / n;
                lo = max 0 (min p1 p2);
                hi = min 1 (max p1 p2)
            in if hi < lo then Empty
               else if lo = hi then Point (fst (fst a) + lo * ux) (snd (fst a) + lo * uy)
               else LineString (fst (fst a) + lo * ux, snd (fst a) + lo * uy)
                               (fst (fst a) + hi * ux, snd (fst a) + hi * uy)))"

subsection \<open>Gates\<close>

text \<open>
  A row of the broadcast variable \<^verbatim>\<open>bv\<close> is \<^verbatim>\<open>(GateID, SHAPE@WKB)\<close>; the geometry
  is modelled after \<^verbatim>\<open>loads\<close>, as the line. \<^verbatim>\<open>name_geom\<close> adds the gate's vector,
  its last point minus its first.
\<close>

type_synonym gate_row = "int \<times> line"
type_synonym crossing = "real \<times> real \<times> int \<times> string"

definition name_geom :: "gate_row \<Rightarrow> int \<times> line \<times> real \<times> real" where
  "name_geom g =
     (let geom = snd g;
          coords = geom;
          head = fst coords;
          last = snd coords;
          vx = fst last - fst head;
          vy = snd last - snd head
      in (fst g, geom, vx, vy))"

subsection \<open>The function applied to a partition of micropaths\<close>

text \<open>
  \<^verbatim>\<open>func\<close> is a generator: it yields one tuple \<^verbatim>\<open>(point.x, point.y, gate_id, lr_rl)\<close> for
  every micropath and gate whose intersection is not empty. The model returns the list
  of the tuples in the order they are yielded, or the exception that ends the
  generator (and with it the Spark job). \<open>gates_loop\<close> is the inner loop
  \<^verbatim>\<open>for gate_id, gate_geom, gx, gy in gates\<close> for one micropath, \<open>partition_loop\<close> the
  outer loop \<^verbatim>\<open>for micropath in partition\<close>.
\<close>

fun gates_loop ::
  "(line \<Rightarrow> line \<Rightarrow> geometry) \<Rightarrow> real \<Rightarrow> real \<Rightarrow> line \<Rightarrow>
     (int \<times> line \<times> real \<times> real) list \<Rightarrow> error + crossing list" where
  "gates_loop intersection px py path [] = Inr []"
| "gates_loop intersection px py path ((gate_id, gate_geom, gx, gy) # gates) =
     (let point = intersection gate_geom path
      in if \<not> is_empty point then
           (let cross = px * gy - py * gx;
                lr_rl = (if cross < 0.0 then ''RL'' else ''LR'')
            in case point_x point of
                 Inl e \<Rightarrow> Inl e
               | Inr cx \<Rightarrow>
                   (case point_y point of
                      Inl e \<Rightarrow> Inl e
                    | Inr cy \<Rightarrow>
                        (case gates_loop intersection px py path gates of
                           Inl e \<Rightarrow> Inl e
                         | Inr rest \<Rightarrow> Inr ((cx, cy, gate_id, lr_rl) # rest))))
         else gates_loop intersection px py path gates)"

fun partition_loop ::
  "(line \<Rightarrow> line \<Rightarrow> geometry) \<Rightarrow> (int \<times> line \<times> real \<times> real) list \<Rightarrow>
     df1_row list \<Rightarrow> error + crossing list" where
  "partition_loop intersection gates [] = Inr []"
| "partition_loop intersection gates (micropath # part) =
     (let x1 = df1_row.x1 micropath;
          y1 = df1_row.y1 micropath;
          x2 = df1_row.x2 micropath;
          y2 = df1_row.y2 micropath;
          px = x2 - x1;
          py = y2 - y1;
          path = ((x1, y1), (x2, y2))
      in case gates_loop intersection px py path gates of
           Inl e \<Rightarrow> Inl e
         | Inr out \<Rightarrow>
             (case partition_loop intersection gates part of
                Inl e \<Rightarrow> Inl e
              | Inr rest \<Rightarrow> Inr (out @ rest)))"

definition func ::
  "(line \<Rightarrow> line \<Rightarrow> geometry) \<Rightarrow> gate_row list \<Rightarrow> df1_row list \<Rightarrow> error + crossing list" where
  "func intersection bv part =
     (let gates = map name_geom bv in partition_loop intersection gates part)"

lemmas func_defs = func_def name_geom_def is_empty_def segment_intersection_def

section \<open>The gate statistics\<close>

text \<open>
  \<^verbatim>\<open>select gate_id,travel_dir,count(1) cnt from v5
  group by gate_id,travel_dir order by gate_id,travel_dir\<close>,
  over the view \<^verbatim>\<open>v5\<close> of the yielded tuples
  \<^verbatim>\<open>(gate_x, gate_y, gate_id, travel_dir)\<close>. \<^verbatim>\<open>group by\<close> makes one group for every
  distinct pair of the two columns, \<^verbatim>\<open>count(1)\<close> counts the rows of the group, and
  \<^verbatim>\<open>order by\<close> sorts the groups by \<^verbatim>\<open>gate_id\<close> and, within one gate, by
  \<^verbatim>\<open>travel_dir\<close>: pairs are ordered lexicographically, and strings character by
  character.
\<close>

type_synonym stats_row = "int \<times> string \<times> int"

definition group_key :: "crossing \<Rightarrow> int \<times> string" where
  "group_key r = (fst (snd (snd r)), snd (snd (snd r)))"

definition count_1 :: "int \<times> string \<Rightarrow> crossing list \<Rightarrow> int" where
  "count_1 k v5 = int (length (filter (\<lambda>r. group_key r = k) v5))"

definition group_by :: "crossing list \<Rightarrow> (int \<times> string) list" where
  "group_by v5 = remdups (map group_key v5)"

definition stats_key :: "stats_row \<Rightarrow> int \<times> string" where
  "stats_key row = (fst row, fst (snd row))"

definition cnt :: "stats_row \<Rightarrow> int" where
  "cnt row = snd (snd row)"

definition gate_stats :: "crossing list \<Rightarrow> stats_row list" where
  "gate_stats v5 =
     sort_key stats_key (map (\<lambda>k. (fst k, snd k, count_1 k v5)) (group_by v5))"

lemmas stats_defs = gate_stats_def group_by_def count_1_def group_key_def stats_key_def cnt_def

section \<open>Example tables\<close>

text \<open>
  The reports of the specification's first end-to-end scenario, out of time order:
  entity \<open>A\<close> at \<open>(0,0)\<close>, \<open>(10,0)\<close> and \<open>(20,0)\<close> at the seconds 0, 10 and 1000.
\<close>

definition scenario_reports :: "v0_row list" where
  "scenario_reports =
     [\<lparr>v0_row.mmsi = ''A'', x = 20, y = 0, t = 1000\<rparr>,
      \<lparr>v0_row.mmsi = ''A'', x = 0, y = 0, t = 0\<rparr>,
      \<lparr>v0_row.mmsi = ''A'', x = 10, y = 0, t = 10\<rparr>]"

text \<open>Two reports of one entity in the same second.\<close>

definition same_second_reports :: "v0_row list" where
  "same_second_reports =
     [\<lparr>v0_row.mmsi = ''A'', x = 0, y = 0, t = 5\<rparr>,
      \<lparr>v0_row.mmsi = ''A'', x = 3, y = 4, t = 5\<rparr>]"

text \<open>A single report ten seconds before the epoch.\<close>

definition before_epoch_reports :: "v0_row list" where
  "before_epoch_reports = [\<lparr>v0_row.mmsi = ''A'', x = 0, y = 5, t = - 10\<rparr>]"

text \<open>Two reports of one entity, four metres and ten seconds apart on the x-axis.\<close>

definition along_gate_reports :: "v0_row list" where
  "along_gate_reports =
     [\<lparr>v0_row.mmsi = ''A'', x = 2, y = 0, t = 0\<rparr>,
      \<lparr>v0_row.mmsi = ''A'', x = 6, y = 0, t = 10\<rparr>]"

text \<open>
  The crossings of the specification's fifth end-to-end scenario: two crossings of
  gate 7, one in each direction.
\<close>

definition two_crossings :: "crossing list" where
  "two_crossings = [(5, 0, 7, ''RL''), (5, 1, 7, ''LR'')]"

lemmas view_defs =
  v1_def v2_def v3_def v4_def df1_def df1_select_def noise_where_def sql_less_def
  sql_div_def partition_by_def order_by_t_def

section \<open>Properties of the micropath views\<close>

lemma v2_set:
  "r \<in> set (v2 tbl) \<Longrightarrow>
     v1_row.t1 r < v1_row.t2 r \<and> v2_row.dt r = v1_row.t2 r - v1_row.t1 r
     \<and> v2_row.dx r = v1_row.x2 r - v1_row.x1 r
     \<and> v2_row.dy r = v1_row.y2 r - v1_row.y1 r"
  by (auto simp: v2_def)

lemma v2_base:
  "r \<in> set (v2 tbl) \<Longrightarrow> v1_row.truncate r \<in> set tbl"
proof -
  assume "r \<in> set (v2 tbl)"
  then obtain c where c: "c \<in> set tbl" and r: "v1_row.truncate r = v1_row.truncate c"
    by (auto simp: v2_def v1_row.truncate_def)
  have "v1_row.truncate c = c"
    by (cases c) (simp add: v1_row.truncate_def)
  with c r show ?thesis by simp
qed

lemma v2_length: "length (v2 tbl) = length (filter (\<lambda>r. v1_row.t1 r < v1_row.t2 r) tbl)"
  by (simp add: v2_def)

text \<open>
  Claim C7. Every micropath of the segmenter (a row of view \<^verbatim>\<open>v2\<close>) has \<open>t1 < t2\<close>
  strictly, its columns before the displacements are those of a candidate row of
  \<^verbatim>\<open>v1\<close>, and as many rows are emitted as there are candidates with \<open>t1 < t2\<close>: the
  candidates with \<open>t1 = t2\<close> or \<open>t1 > t2\<close> are discarded.
\<close>

theorem v2_strictly_increasing_time:
  "(r \<in> set (v2 (v1 v0)) \<longrightarrow>
      v1_row.t1 r < v1_row.t2 r \<and> v1_row.truncate r \<in> set (v1 v0))
   \<and> length (v2 (v1 v0)) = length (filter (\<lambda>c. v1_row.t1 c < v1_row.t2 c) (v1 v0))"
  using v2_set [of r "v1 v0"] v2_base [of r "v1 v0"] v2_length [of "v1 v0"] by blast

theorem v2_strictly_increasing_time_witness:
  "\<lparr>v1_row.mmsi = ''A'', x1 = 0, y1 = 0, t1 = 0, x2 = 10, y2 = 0, t2 = 10,
     dx = 10, dy = 0, dt = 10\<rparr> \<in> set (v2 (v1 scenario_reports))
   \<and> (0::int) < 10
   \<and> \<lparr>v1_row.mmsi = ''A'', x1 = 0, y1 = 0, t1 = 0, x2 = 10, y2 = 0, t2 = 10\<rparr>
        \<in> set (v1 scenario_reports)
   \<and> length (v2 (v1 scenario_reports)) = 2"
  using v2_strictly_increasing_time
    [of "\<lparr>v1_row.mmsi = ''A'', x1 = 0, y1 = 0, t1 = 0, x2 = 10, y2 = 0, t2 = 10,
          dx = 10, dy = 0, dt = 10\<rparr>" scenario_reports]
  by (simp add: scenario_reports_def view_defs v1_row.truncate_def)

subsection \<open>The speed is a defined number\<close>




subsection \<open>The noise filter\<close>


subsection \<open>How many micropaths an entity gets\<close>

lemma lead_rows_mmsi:
  "c \<in> set (lead_rows ws) \<Longrightarrow> \<exists>r\<in>set ws. v1_row.mmsi c = v0_row.mmsi r"
  by (induction ws rule: lead_rows.induct) auto

lemma filter_concat_key:
  assumes "distinct ks"
    and "\<And>j c. j \<in> set ks \<Longrightarrow> c \<in> set (f j) \<Longrightarrow> g c = j"
  shows "filter (\<lambda>c. g c = k) (concat (map f ks)) = (if k \<in> set ks then f k else [])"
  using assms
proof (induction ks)
  case Nil
  then show ?case by simp
next
  case (Cons j ks)
  have all: "filter (\<lambda>c. g c = j) (f j) = f j"
    using Cons.prems(2) [of j] by (simp add: filter_id_conv)
  have none: "j \<noteq> k \<Longrightarrow> filter (\<lambda>c. g c = k) (f j) = []"
    using Cons.prems(2) [of j] by (auto simp: filter_empty_conv)
  have IH: "filter (\<lambda>c. g c = k) (concat (map f ks)) = (if k \<in> set ks then f k else [])"
    using Cons by simp
  show ?case
  proof (cases "j = k")
    case True
    with Cons.prems(1) have "k \<notin> set ks" by simp
    with True all IH show ?thesis by simp
  next
    case False
    with none IH show ?thesis by auto
  qed
qed

lemma v1_partition:
  "filter (\<lambda>c. v1_row.mmsi c = k) (v1 v0) = lead_rows (order_by_t (partition_by k v0))"
proof -
  let ?f = "\<lambda>j. lead_rows (order_by_t (partition_by j v0))"
  have key: "\<And>j c. c \<in> set (?f j) \<Longrightarrow> v1_row.mmsi c = j"
    by (auto dest!: lead_rows_mmsi simp: order_by_t_def partition_by_def)
  have "filter (\<lambda>c. v1_row.mmsi c = k) (v1 v0)
          = (if k \<in> set (remdups (map v0_row.mmsi v0)) then ?f k else [])"
    unfolding v1_def by (rule filter_concat_key) (simp_all add: key)
  moreover have "k \<notin> set (map v0_row.mmsi v0) \<Longrightarrow> partition_by k v0 = []"
    by (auto simp: partition_by_def filter_empty_conv)
  ultimately show ?thesis
    by (auto simp: order_by_t_def)
qed

lemma v2_filter_mmsi:
  "filter (\<lambda>r. v1_row.mmsi r = k) (v2 tbl) = v2 (filter (\<lambda>c. v1_row.mmsi c = k) tbl)"
  by (induction tbl) (auto simp: v2_def)

lemma v2_lead_rows_le:
  "\<forall>r\<in>set ws. 0 \<le> v0_row.t r \<Longrightarrow> length (v2 (lead_rows ws)) \<le> length ws - 1"
  by (induction ws rule: lead_rows.induct) (auto simp: v2_def)

lemma v2_lead_rows_eq:
  "\<forall>r\<in>set ws. 0 \<le> v0_row.t r \<Longrightarrow> sorted (map v0_row.t ws) \<Longrightarrow> distinct (map v0_row.t ws)
     \<Longrightarrow> length (v2 (lead_rows ws)) = length ws - 1"
proof (induction ws rule: lead_rows.induct)
  case (3 r s rs)
  then have "v0_row.t r < v0_row.t s" by (auto simp: order.strict_iff_order)
  with 3 show ?case by (auto simp: v2_def)
qed (auto simp: v2_def)

text \<open>
  Claim C2, as stated, fails: two reports of one entity in the same second give a
  candidate with \<open>t1 = t2\<close>, which the \<^verbatim>\<open>where t1 < t2\<close> of view \<^verbatim>\<open>v2\<close> removes, so the
  entity has 2 reports and 0 micropaths.
\<close>

theorem segmenter_count_same_second:
  "length (filter (\<lambda>m. v1_row.mmsi m = ''A'') (v2 (v1 same_second_reports)))
     \<noteq> length (partition_by ''A'' same_second_reports) - 1"
  by (simp add: same_second_reports_def v1_def v2_def partition_by_def order_by_t_def)

text \<open>
  Claim C2, amended. For an entity whose \<open>n\<close> reports all have a non-negative
  timestamp, the segmenter emits at most \<open>n - 1\<close> micropaths, and exactly \<open>n - 1\<close> when
  the timestamps of the entity's reports are pairwise distinct.
\<close>

theorem segmenter_count:
  assumes "\<forall>r\<in>set (partition_by k v0). 0 \<le> v0_row.t r"
  shows "length (filter (\<lambda>m. v1_row.mmsi m = k) (v2 (v1 v0))) \<le> length (partition_by k v0) - 1
    \<and> (distinct (map v0_row.t (partition_by k v0)) \<longrightarrow>
         length (filter (\<lambda>m. v1_row.mmsi m = k) (v2 (v1 v0))) = length (partition_by k v0) - 1)"
proof -
  let ?ws = "order_by_t (partition_by k v0)"
  have eq: "filter (\<lambda>m. v1_row.mmsi m = k) (v2 (v1 v0)) = v2 (lead_rows ?ws)"
    by (simp add: v2_filter_mmsi v1_partition)
  have nonneg: "\<forall>r\<in>set ?ws. 0 \<le> v0_row.t r"
    using assms by (simp add: order_by_t_def)
  have len: "length ?ws = length (partition_by k v0)"
    by (simp add: order_by_t_def)
  have srt: "sorted (map v0_row.t ?ws)"
    by (simp add: order_by_t_def)
  have dst: "distinct (map v0_row.t (partition_by k v0)) \<Longrightarrow> distinct (map v0_row.t ?ws)"
    by (simp add: order_by_t_def distinct_map)
  from v2_lead_rows_le [OF nonneg] v2_lead_rows_eq [OF nonneg srt] dst eq len
  show ?thesis by auto
qed

theorem segmenter_count_witness:
  "length (filter (\<lambda>m. v1_row.mmsi m = ''A'') (v2 (v1 scenario_reports)))
     = length (partition_by ''A'' scenario_reports) - 1
   \<and> length (partition_by ''A'' scenario_reports) = 3"
  using segmenter_count [of "''A''" scenario_reports]
  by (simp add: scenario_reports_def partition_by_def)

subsection \<open>The row padded by the default of lead\<close>

text \<open>
  A row of \<^verbatim>\<open>v1\<close> pairs two reports that follow each other in the ordered partition, or
  it is the padded row of the partition's last report. When no report lies before the
  epoch, \<^verbatim>\<open>where t1 < t2\<close> removes every padded row, so every micropath pairs two
  reports of one entity that follow each other in time order.
\<close>

lemma lead_rows_cases:
  assumes "c \<in> set (lead_rows ws)"
  shows "(\<exists>i. Suc i < length ws
            \<and> c = \<lparr>v1_row.mmsi = v0_row.mmsi (ws ! i), x1 = v0_row.x (ws ! i),
                    y1 = v0_row.y (ws ! i), t1 = v0_row.t (ws ! i),
                    x2 = v0_row.x (ws ! Suc i), y2 = v0_row.y (ws ! Suc i),
                    t2 = v0_row.t (ws ! Suc i)\<rparr>)
       \<or> (ws \<noteq> [] \<and> v1_row.t1 c = v0_row.t (last ws) \<and> v1_row.t2 c = 0)"
  using assms
proof (induction ws rule: lead_rows.induct)
  case 1
  then show ?case by simp
next
  case (2 r)
  then show ?case by simp
next
  case (3 r s rs)
  show ?case
  proof (cases "c \<in> set (lead_rows (s # rs))")
    case True
    from "3.IH" [OF True] show ?thesis
    proof
      assume "\<exists>i. Suc i < length (s # rs)
            \<and> c = \<lparr>v1_row.mmsi = v0_row.mmsi ((s # rs) ! i), x1 = v0_row.x ((s # rs) ! i),
                    y1 = v0_row.y ((s # rs) ! i), t1 = v0_row.t ((s # rs) ! i),
                    x2 = v0_row.x ((s # rs) ! Suc i), y2 = v0_row.y ((s # rs) ! Suc i),
                    t2 = v0_row.t ((s # rs) ! Suc i)\<rparr>"
      then obtain i where "Suc i < length (s # rs)"
        and "c = \<lparr>v1_row.mmsi = v0_row.mmsi ((s # rs) ! i), x1 = v0_row.x ((s # rs) ! i),
                    y1 = v0_row.y ((s # rs) ! i), t1 = v0_row.t ((s # rs) ! i),
                    x2 = v0_row.x ((s # rs) ! Suc i), y2 = v0_row.y ((s # rs) ! Suc i),
                    t2 = v0_row.t ((s # rs) ! Suc i)\<rparr>"
        by blast
      then have "Suc (Suc i) < length (r # s # rs)
        \<and> c = \<lparr>v1_row.mmsi = v0_row.mmsi ((r # s # rs) ! Suc i),
                x1 = v0_row.x ((r # s # rs) ! Suc i),
                y1 = v0_row.y ((r # s # rs) ! Suc i), t1 = v0_row.t ((r # s # rs) ! Suc i),
                x2 = v0_row.x ((r # s # rs) ! Suc (Suc i)),
                y2 = v0_row.y ((r # s # rs) ! Suc (Suc i)),
                t2 = v0_row.t ((r # s # rs) ! Suc (Suc i))\<rparr>"
        by simp
      then show ?thesis by blast
    next
      assume "s # rs \<noteq> [] \<and> v1_row.t1 c = v0_row.t (last (s # rs)) \<and> v1_row.t2 c = 0"
      then show ?thesis by simp
    qed
  next
    case False
    with "3.prems" have "Suc 0 < length (r # s # rs)
        \<and> c = \<lparr>v1_row.mmsi = v0_row.mmsi ((r # s # rs) ! 0),
                x1 = v0_row.x ((r # s # rs) ! 0),
                y1 = v0_row.y ((r # s # rs) ! 0), t1 = v0_row.t ((r # s # rs) ! 0),
                x2 = v0_row.x ((r # s # rs) ! Suc 0),
                y2 = v0_row.y ((r # s # rs) ! Suc 0),
                t2 = v0_row.t ((r # s # rs) ! Suc 0)\<rparr>"
      by simp
    then show ?thesis by blast
  qed
qed

lemma micropath_pairs_adjacent_reports:
  assumes nonneg: "\<forall>r\<in>set v0. 0 \<le> v0_row.t r"
    and m: "m \<in> set (v2 (v1 v0))"
  shows "\<exists>i. Suc i < length (order_by_t (partition_by (v1_row.mmsi m) v0))
     \<and> v1_row.truncate m =
         \<lparr>v1_row.mmsi = v0_row.mmsi (order_by_t (partition_by (v1_row.mmsi m) v0) ! i),
          x1 = v0_row.x (order_by_t (partition_by (v1_row.mmsi m) v0) ! i),
          y1 = v0_row.y (order_by_t (partition_by (v1_row.mmsi m) v0) ! i),
          t1 = v0_row.t (order_by_t (partition_by (v1_row.mmsi m) v0) ! i),
          x2 = v0_row.x (order_by_t (partition_by (v1_row.mmsi m) v0) ! Suc i),
          y2 = v0_row.y (order_by_t (partition_by (v1_row.mmsi m) v0) ! Suc i),
          t2 = v0_row.t (order_by_t (partition_by (v1_row.mmsi m) v0) ! Suc i)\<rparr>"
proof -
  let ?c = "v1_row.truncate m"
  let ?ws = "order_by_t (partition_by (v1_row.mmsi m) v0)"
  have k: "v1_row.mmsi ?c = v1_row.mmsi m" and t1: "v1_row.t1 ?c = v1_row.t1 m"
    and t2: "v1_row.t2 ?c = v1_row.t2 m"
    by (simp_all add: v1_row.truncate_def)
  from m have lt: "v1_row.t1 m < v1_row.t2 m" and c: "?c \<in> set (v1 v0)"
    using v2_set [of m "v1 v0"] v2_base [of m "v1 v0"] by simp_all
  from c k have "?c \<in> set (filter (\<lambda>c. v1_row.mmsi c = v1_row.mmsi m) (v1 v0))"
    by simp
  then have "?c \<in> set (lead_rows ?ws)"
    by (simp only: v1_partition)
  from lead_rows_cases [OF this] show ?thesis
  proof
    assume "?ws \<noteq> [] \<and> v1_row.t1 ?c = v0_row.t (last ?ws) \<and> v1_row.t2 ?c = 0"
    then have "last ?ws \<in> set ?ws" and "v1_row.t1 m = v0_row.t (last ?ws)" and "v1_row.t2 m = 0"
      using t1 t2 by simp_all
    moreover have "set ?ws \<subseteq> set v0"
      by (auto simp: order_by_t_def partition_by_def)
    ultimately have "0 \<le> v1_row.t1 m" and "v1_row.t2 m = 0"
      using nonneg by auto
    with lt show ?thesis by simp
  qed
qed

text \<open>
  Claim C3 on a report before the epoch. The only row of its partition is padded with
  \<open>x2 = 0.0\<close>, \<open>y2 = 0.0\<close>, \<open>t2 = 0\<close>; its \<open>t1 = -10\<close> is below the default \<open>t2 = 0\<close>, so
  \<^verbatim>\<open>where t1 < t2\<close> keeps it. The padded row is a micropath of view \<^verbatim>\<open>v2\<close>, from the
  report to the point \<open>(0,0)\<close>, and it passes the noise filter as well.
\<close>

theorem padding_segment_leaks:
  "v2 (v1 before_epoch_reports) =
     [\<lparr>v1_row.mmsi = ''A'', x1 = 0, y1 = 5, t1 = - 10, x2 = 0, y2 = 0, t2 = 0,
       dx = 0, dy = - 5, dt = 10\<rparr>]
   \<and> df1 (v4 (v3 (v2 (v1 before_epoch_reports)))) =
     [\<lparr>df1_row.x1 = 0, y1 = 5, x2 = 0, y2 = 0\<rparr>]"
  by (simp add: before_epoch_reports_def view_defs)

section \<open>Properties of the gate-crossing function\<close>

subsection \<open>The direction of a yielded crossing\<close>





subsection \<open>One micropath and one gate\<close>

text \<open>
  For one gate and one micropath the function yields nothing when the intersection is
  empty, one crossing when it is a point, and raises when it is a line.
\<close>

lemma func_single:
  "func isect [(gid, (h, l))] [m] =
     (case isect (h, l) ((df1_row.x1 m, df1_row.y1 m), (df1_row.x2 m, df1_row.y2 m)) of
        Empty \<Rightarrow> Inr []
      | Point cx cy \<Rightarrow>
          Inr [(cx, cy, gid,
                if (df1_row.x2 m - df1_row.x1 m) * (snd l - snd h)
                     - (df1_row.y2 m - df1_row.y1 m) * (fst l - fst h) < 0
                then ''RL'' else ''LR'')]
      | LineString p q \<Rightarrow> Inl AttributeError)"
  by (simp add: func_def name_geom_def is_empty_def Let_def split: geometry.splits)

text \<open>
  A gate whose two points coincide gets the vector \<open>(0, 0)\<close> and stays in the list of
  gates. The function treats it like any other gate: whether it yields a crossing is
  decided by the intersection operation alone, and a crossing it yields has
  \<open>cross = 0\<close> and so the direction \<open>LR\<close>.
\<close>

lemma name_geom_coincident:
  "name_geom (gid, (p, p)) = (gid, (p, p), 0, 0)"
  by (simp add: name_geom_def)

lemma func_coincident_gate:
  "func isect [(gid, (p, p))] [m] =
     (case isect (p, p) ((df1_row.x1 m, df1_row.y1 m), (df1_row.x2 m, df1_row.y2 m)) of
        Empty \<Rightarrow> Inr []
      | Point cx cy \<Rightarrow> Inr [(cx, cy, gid, ''LR'')]
      | LineString a b \<Rightarrow> Inl AttributeError)"
  by (simp add: func_single split: geometry.splits)

text \<open>
  Claim C5 on a micropath that runs along a gate. The two reports give the micropath
  \<open>(2,0) \<rightarrow> (6,0)\<close>, which passes the noise filter; the gate is the line
  \<open>(0,0) \<rightarrow> (10,0)\<close>. Their intersection is not empty: it is the line from \<open>(2,0)\<close> to
  \<open>(6,0)\<close>. The function does not yield a crossing for the pair: reading \<^verbatim>\<open>point.x\<close>
  from the line raises \<^verbatim>\<open>AttributeError\<close>.
\<close>

theorem overlap_raises:
  "df1 (v4 (v3 (v2 (v1 along_gate_reports)))) = [\<lparr>df1_row.x1 = 2, y1 = 0, x2 = 6, y2 = 0\<rparr>]
   \<and> segment_intersection ((0, 0), (10, 0)) ((2, 0), (6, 0)) = LineString (2, 0) (6, 0)
   \<and> func segment_intersection [(1, ((0, 0), (10, 0)))]
        (df1 (v4 (v3 (v2 (v1 along_gate_reports))))) = Inl AttributeError"
  by (simp add: along_gate_reports_def view_defs func_defs)

subsection \<open>Reversing the micropath or the gate\<close>







section \<open>Properties of the gate statistics\<close>

lemma sum_list_indicator_absent:
  "a \<notin> set ks \<Longrightarrow> sum_list (map (\<lambda>k. if a = k then 1 else 0) ks) = (0::int)"
  by (induction ks) auto

lemma sum_list_indicator:
  "distinct ks \<Longrightarrow> a \<in> set ks \<Longrightarrow> sum_list (map (\<lambda>k. if a = k then 1 else 0) ks) = (1::int)"
proof (induction ks)
  case Nil
  then show ?case by simp
next
  case (Cons k ks)
  show ?case
  proof (cases "a = k")
    case True
    with Cons.prems have "a \<notin> set ks" by simp
    then have "sum_list (map (\<lambda>k. if a = k then 1 else 0) ks) = (0::int)"
      by (rule sum_list_indicator_absent)
    with True show ?thesis by simp
  next
    case False
    with Cons show ?thesis by simp
  qed
qed


lemma sum_group_counts:
  assumes "distinct ks" and "g ` set xs \<subseteq> set ks"
  shows "sum_list (map (\<lambda>k. int (length (filter (\<lambda>r. g r = k) xs))) ks) = int (length xs)"
  using assms(2)
proof (induction xs)
  case Nil
  then show ?case by simp
next
  case (Cons a xs)
  from Cons.prems have a: "g a \<in> set ks" and rest: "g ` set xs \<subseteq> set ks" by auto
  have "sum_list (map (\<lambda>k. int (length (filter (\<lambda>r. g r = k) (a # xs)))) ks)
      = sum_list (map (\<lambda>k. (if g a = k then 1 else 0) + int (length (filter (\<lambda>r. g r = k) xs))) ks)"
    by (rule arg_cong [where f = sum_list], rule map_cong) auto
  also have "\<dots> = sum_list (map (\<lambda>k. if g a = k then 1 else 0) ks)
                   + sum_list (map (\<lambda>k. int (length (filter (\<lambda>r. g r = k) xs))) ks)"
    by (rule sum_list_addf)
  also have "\<dots> = 1 + int (length xs)"
    by (simp only: sum_list_indicator [OF assms(1) a] Cons.IH [OF rest])
  finally show ?case by simp
qed

lemma gate_stats_mset:
  "mset (gate_stats v5) = mset (map (\<lambda>k. (fst k, snd k, count_1 k v5)) (group_by v5))"
  by (simp add: gate_stats_def)

lemma gate_stats_keys:
  "mset (map stats_key (gate_stats v5)) = mset (group_by v5)"
proof -
  have "mset (map stats_key (gate_stats v5))
      = image_mset stats_key (mset (map (\<lambda>k. (fst k, snd k, count_1 k v5)) (group_by v5)))"
    by (simp add: gate_stats_def)
  also have "\<dots> = mset (map (\<lambda>k. k) (group_by v5))"
    by (simp add: stats_key_def image_mset.compositionality comp_def)
  finally show ?thesis by simp
qed

lemma sum_list_map_mset:
  fixes f :: "'a \<Rightarrow> int"
  assumes "mset xs = mset ys"
  shows "sum_list (map f xs) = sum_list (map f ys)"
proof -
  have "sum_list (map f xs) = sum_mset (mset (map f xs))"
    by (simp only: sum_mset_sum_list)
  also have "\<dots> = sum_mset (mset (map f ys))"
    using assms by (simp only: mset_map)
  also have "\<dots> = sum_list (map f ys)"
    by (simp only: sum_mset_sum_list)
  finally show ?thesis .
qed

lemma gate_stats_sum:
  "sum_list (map cnt (gate_stats v5)) = int (length v5)"
proof -
  have "sum_list (map cnt (gate_stats v5))
      = sum_list (map cnt (map (\<lambda>k. (fst k, snd k, count_1 k v5)) (group_by v5)))"
    by (rule sum_list_map_mset) (rule gate_stats_mset)
  also have "\<dots> = sum_list (map (\<lambda>k. int (length (filter (\<lambda>r. group_key r = k) v5))) (group_by v5))"
    by (simp add: cnt_def count_1_def comp_def)
  also have "\<dots> = int (length v5)"
    by (rule sum_group_counts) (simp_all add: group_by_def)
  finally show ?thesis .
qed

text \<open>
  Claim C9. The rows of the gate statistics have pairwise distinct keys
  \<open>(gate_id, travel_dir)\<close>, their keys are exactly the keys that occur among the
  crossings, the count of every row is the number of crossings with the row's key,
  the rows are sorted by \<open>gate_id\<close> and within one gate by \<open>travel_dir\<close>, and the counts
  add up to the number of crossings.
\<close>

theorem gate_stats_counts:
  "distinct (map stats_key (gate_stats v5))
   \<and> set (map stats_key (gate_stats v5)) = set (map group_key v5)
   \<and> (\<forall>row\<in>set (gate_stats v5).
         cnt row = int (length (filter (\<lambda>r. group_key r = stats_key row) v5)))
   \<and> sorted_wrt (\<lambda>a b. fst a < fst b \<or> (fst a = fst b \<and> snd a \<le> snd b))
        (map stats_key (gate_stats v5))
   \<and> sum_list (map cnt (gate_stats v5)) = int (length v5)"
proof -
  have d: "distinct (map stats_key (gate_stats v5))"
    using gate_stats_keys [of v5] mset_eq_imp_distinct_iff [of "map stats_key (gate_stats v5)" "group_by v5"]
    by (simp add: group_by_def)
  have k: "set (map stats_key (gate_stats v5)) = set (map group_key v5)"
    using gate_stats_keys [of v5] mset_eq_setD [of "map stats_key (gate_stats v5)" "group_by v5"]
    by (simp add: group_by_def)
  have c: "\<forall>row\<in>set (gate_stats v5).
         cnt row = int (length (filter (\<lambda>r. group_key r = stats_key row) v5))"
    by (auto simp: gate_stats_def cnt_def stats_key_def count_1_def)
  have "sorted (map stats_key (gate_stats v5))"
    by (simp add: gate_stats_def)
  then have s: "sorted_wrt (\<lambda>a b. fst a < fst b \<or> (fst a = fst b \<and> snd a \<le> snd b))
        (map stats_key (gate_stats v5))"
    by (rule sorted_wrt_mono_rel [rotated]) (auto simp: less_eq_prod_def)
  from d k c s gate_stats_sum [of v5] show ?thesis by blast
qed

theorem gate_stats_counts_witness:
  "gate_stats two_crossings = [(7, ''LR'', 1), (7, ''RL'', 1)]
   \<and> sum_list (map cnt (gate_stats two_crossings)) = 2"
  using gate_stats_counts [of two_crossings]
  by (simp add: two_crossings_def stats_defs)

end
